theory Spec2Isabelle
  imports Main "HOL-Library.AList" "HOL-Library.Sublist"
begin

section \<open>JavaScript values\<close>

text \<open>
  The user store (\<^verbatim>\<open>class UserStore\<close> and the private functions after it) works on
  plain JavaScript objects delivered by the user database. A value is one of the
  JavaScript primitives, a function (known by its name) or an object: its own
  properties in the order they were created. Numbers are integers here; no property of
  the store depends on a fractional number.
\<close>

datatype jsval =
    JUndefined
  | JNull
  | JBool bool
  | JNum int
  | JStr string
  | JFun string
  | JObj "(string \<times> jsval) list"

type_synonym jsobj = "(string \<times> jsval) list"

text \<open>The truthiness every \<^verbatim>\<open>if (x)\<close> and \<^verbatim>\<open>!x\<close> of the source tests.\<close>

fun truthy :: "jsval \<Rightarrow> bool" where
  "truthy JUndefined = False"
| "truthy JNull = False"
| "truthy (JBool b) = b"
| "truthy (JNum n) = (n \<noteq> 0)"
| "truthy (JStr s) = (s \<noteq> [])"
| "truthy (JFun f) = True"
| "truthy (JObj fs) = True"

text \<open>
  \<^verbatim>\<open>o[k]\<close> reads a property (\<^verbatim>\<open>undefined\<close> when the object has none of that name),
  \<^verbatim>\<open>o[k] = v\<close> overwrites it in place or appends it, \<^verbatim>\<open>delete o[k]\<close> removes it.
\<close>

definition obj_get :: "jsobj \<Rightarrow> string \<Rightarrow> jsval" where
  "obj_get obj k = (case map_of obj k of None \<Rightarrow> JUndefined | Some v \<Rightarrow> v)"

definition obj_set :: "jsobj \<Rightarrow> string \<Rightarrow> jsval \<Rightarrow> jsobj" where
  "obj_set obj k v = AList.update k v obj"

definition obj_delete :: "jsobj \<Rightarrow> string \<Rightarrow> jsobj" where
  "obj_delete obj k = AList.delete k obj"

text \<open>An identifier that may be \<^verbatim>\<open>null\<close>, and an object that may be \<^verbatim>\<open>undefined\<close>, as values.\<close>

definition id_val :: "string option \<Rightarrow> jsval" where
  "id_val i = (case i of None \<Rightarrow> JNull | Some u \<Rightarrow> JStr u)"

definition opt_val :: "jsobj option \<Rightarrow> jsval" where
  "opt_val x = (case x of None \<Rightarrow> JUndefined | Some obj \<Rightarrow> JObj obj)"

subsection \<open>Strings\<close>

text \<open>
  \<^verbatim>\<open>s.includes(q)\<close> holds when \<^verbatim>\<open>q\<close> occurs in \<^verbatim>\<open>s\<close> at some position.
  \<^verbatim>\<open>toUpperCase\<close> is the case mapping of the language, defined by the Unicode tables
  and not by this program: the functions that call it take it as a parameter, named
  \<open>toUpperCase\<close>, and what is proved of them holds for every such function. Text
  beyond the 8-bit characters is held in its encoding, which \<^verbatim>\<open>includes\<close> on
  well-formed text does not depend on.

  \<open>ascii_toUpperCase\<close> is what that mapping does on ASCII text (\<^verbatim>\<open>a\<close>..\<^verbatim>\<open>z\<close> to
  \<^verbatim>\<open>A\<close>..\<^verbatim>\<open>Z\<close>, every other ASCII character unchanged); it serves the worked
  examples only.
\<close>

fun str_includes :: "string \<Rightarrow> string \<Rightarrow> bool" where
  "str_includes [] q = (q = [])"
| "str_includes (c # cs) q = (prefix q (c # cs) \<or> str_includes cs q)"

definition ascii_toUpperCase_char :: "char \<Rightarrow> char" where
  "ascii_toUpperCase_char c =
     (if (97::nat) \<le> of_char c \<and> of_char c \<le> (122::nat)
      then char_of (of_char c - (32::nat)) else c)"

definition ascii_toUpperCase :: "string \<Rightarrow> string" where
  "ascii_toUpperCase s = map ascii_toUpperCase_char s"

section \<open>The store\<close>

text \<open>
  The data the current-user feed and \<^verbatim>\<open>createUser\<close> deliver:
  \<^verbatim>\<open>{ id, publicInfo, privateInfo, serverInfo }\<close>. The public part is an object or
  missing; the private and the server part are any value and are only tested for
  truthiness.
\<close>

record payload =
  pl_id :: string
  pl_publicInfo :: "jsobj option"
  pl_privateInfo :: jsval
  pl_serverInfo :: jsval

definition payload_val :: "payload \<Rightarrow> jsval" where
  "payload_val d = JObj [(''id'', JStr (pl_id d)), (''publicInfo'', opt_val (pl_publicInfo d)),
     (''privateInfo'', pl_privateInfo d), (''serverInfo'', pl_serverInfo d)]"

text \<open>
  A registered hook is code of the application: it is known by a name and by what a call
  does, return (\<open>None\<close>) or throw an error (\<open>Some err\<close>).
\<close>

datatype hook = Hook (hook_name: string) (hook_run: "jsval \<Rightarrow> jsval option")

text \<open>
  Everything the store does to the world outside it, in the order it does it: calls of
  \<^verbatim>\<open>userDb\<close>, calls of hooks and of the caller's callback, \<^verbatim>\<open>console.log\<close> and
  \<^verbatim>\<open>debugger\<close>.
\<close>

datatype effect =
    DbListenToCurrentUser
  | DbListenToUser string
  | DbLogin "jsobj option" string
  | DbLogout jsval
  | DbCreateUser "jsobj option" string
  | DbSaveToUsersCollection string jsval
  | DbSendPasswordResetEmail string
  | HookCalled string jsval
  | CallbackCalled string "jsval list"
  | ConsoleLog jsval
  | Debugger

fun is_backend_call :: "effect \<Rightarrow> bool" where
  "is_backend_call (HookCalled n v) = False"
| "is_backend_call (CallbackCalled n vs) = False"
| "is_backend_call (ConsoleLog v) = False"
| "is_backend_call Debugger = False"
| "is_backend_call e = True"

fun is_hook_call :: "effect \<Rightarrow> bool" where
  "is_hook_call (HookCalled n v) = True"
| "is_hook_call e = False"

text \<open>
  The observable fields of \<^verbatim>\<open>UserStore\<close> and the two module-level hook lists
  (\<^verbatim>\<open>_onLoginTriggers\<close>, \<^verbatim>\<open>_onLogoutTriggers\<close>). \<^verbatim>\<open>usersMap\<close> is a map that iterates
  in insertion order: \<^verbatim>\<open>set\<close> on a key it holds keeps the key's place.
\<close>

record state =
  userId :: "string option"
  usersMap :: "(string \<times> jsobj) list"
  privateInfo :: jsval
  serverInfo :: jsval
  onLoginTriggers :: "hook list"
  onLogoutTriggers :: "hook list"

definition initial :: state where
  "initial = \<lparr> userId = None, usersMap = [], privateInfo = JNull, serverInfo = JNull,
     onLoginTriggers = [], onLogoutTriggers = [] \<rparr>"

definition map_get :: "(string \<times> jsobj) list \<Rightarrow> string option \<Rightarrow> jsobj option" where
  "map_get m k = (case k of None \<Rightarrow> None | Some u \<Rightarrow> map_of m u)"

definition map_set :: "(string \<times> jsobj) list \<Rightarrow> string \<Rightarrow> jsobj \<Rightarrow> (string \<times> jsobj) list" where
  "map_set m k v = AList.update k v m"

subsection \<open>Registration and the computed views\<close>

definition init :: "state \<Rightarrow> effect list \<times> state" where
  "init s = ([DbListenToCurrentUser], s)"

definition onLogin :: "state \<Rightarrow> hook \<Rightarrow> state" where
  "onLogin s callback = s\<lparr>onLoginTriggers := onLoginTriggers s @ [callback]\<rparr>"

definition onLogout :: "state \<Rightarrow> hook \<Rightarrow> state" where
  "onLogout s callback = s\<lparr>onLogoutTriggers := onLogoutTriggers s @ [callback]\<rparr>"

definition user :: "state \<Rightarrow> jsobj option" where
  "user s = map_get (usersMap s) (userId s)"

definition fullUser :: "state \<Rightarrow> jsval" where
  "fullUser s = JObj [(''id'', id_val (userId s)), (''public'', opt_val (user s)),
     (''private'', privateInfo s), (''server'', serverInfo s)]"

subsection \<open>Saving public user data\<close>

text \<open>
  \<^verbatim>\<open>_savePublicUserInfo\<close> changes the object it is given in place and then stores it.
  \<open>savePublicUserInfo_object\<close> is that object after the three assignments; callers that
  go on reading the object they passed (\<^verbatim>\<open>_listenToCurrentUser\<close>,
  \<^verbatim>\<open>_saveCurrentUserLocally\<close>) read this one.
\<close>

definition savePublicUserInfo_object :: "string \<Rightarrow> jsobj \<Rightarrow> jsobj" where
  "savePublicUserInfo_object uid u =
     (let u1 = obj_set u ''displayName'' (obj_get u ''email'');
          u2 = obj_set u1 ''save'' (JFun ''_updateUser'');
          u3 = obj_set u2 ''id'' (JStr uid)
      in u3)"

definition savePublicUserInfo :: "state \<Rightarrow> string \<Rightarrow> jsobj option \<Rightarrow> state" where
  "savePublicUserInfo s uid usr =
     (case usr of
        None \<Rightarrow> s
      | Some u \<Rightarrow> s\<lparr>usersMap := map_set (usersMap s) uid (savePublicUserInfo_object uid u)\<rparr>)"

definition saveCurrentUserLocally :: "state \<Rightarrow> payload \<Rightarrow> state" where
  "saveCurrentUserLocally s d =
     (let s1 = (case pl_publicInfo d of
                  None \<Rightarrow> s
                | Some p \<Rightarrow>
                    (let s' = savePublicUserInfo s (pl_id d) (Some p) in
                     if truthy (obj_get (savePublicUserInfo_object (pl_id d) p) ''isOnline'')
                     then s'\<lparr>userId := Some (pl_id d)\<rparr> else s'));
          s2 = (if truthy (pl_privateInfo d) then s1\<lparr>privateInfo := pl_privateInfo d\<rparr> else s1);
          s3 = (if truthy (pl_serverInfo d) then s2\<lparr>serverInfo := pl_serverInfo d\<rparr> else s2)
      in s3)"

text \<open>
  \<^verbatim>\<open>_listenToPublicUserData\<close> subscribes; the function it passes to \<^verbatim>\<open>userDb.listenToUser\<close>
  runs when the database delivers, with an error (not looked at) and the user or \<^verbatim>\<open>null\<close>.
\<close>

definition listenToPublicUserData :: "string \<Rightarrow> effect list" where
  "listenToPublicUserData uid = [DbListenToUser uid]"

definition listenToUser_callback :: "state \<Rightarrow> string \<Rightarrow> jsval \<Rightarrow> jsobj option \<Rightarrow> state" where
  "listenToUser_callback s uid err usr = savePublicUserInfo s uid usr"

definition getUserById :: "state \<Rightarrow> string \<Rightarrow> jsobj option \<times> effect list \<times> state" where
  "getUserById s uid =
     (let usr = map_get (usersMap s) (Some uid) in
      (usr, (if usr = None then listenToPublicUserData uid else []), s))"

subsection \<open>Account operations\<close>

text \<open>
  \<^verbatim>\<open>login\<close>, \<^verbatim>\<open>createUser\<close> and \<^verbatim>\<open>sendPasswordResetEmail\<close> hand over to the database;
  the caller's callback is known by its name. \<^verbatim>\<open>logout\<close> passes \<^verbatim>\<open>this.user\<close>, the
  public profile of the current user, and clears \<^verbatim>\<open>userId\<close> at once.
\<close>

definition login :: "state \<Rightarrow> jsobj option \<Rightarrow> string \<Rightarrow> effect list \<times> state" where
  "login s usr callback = ([DbLogin usr callback], s)"

definition logout :: "state \<Rightarrow> effect list \<times> state" where
  "logout s = ([DbLogout (opt_val (user s))], s\<lparr>userId := None\<rparr>)"

definition createUser_error :: jsval where
  "createUser_error = JObj [(''message'', JStr ''You must provide an email and password'')]"

definition createUser :: "state \<Rightarrow> jsobj option \<Rightarrow> string \<Rightarrow> effect list \<times> state" where
  "createUser s usr callback =
     (if (case usr of
            None \<Rightarrow> True
          | Some u \<Rightarrow> \<not> truthy (obj_get u ''email'') \<or> \<not> truthy (obj_get u ''password''))
      then ([CallbackCalled callback [createUser_error]], s)
      else ([DbCreateUser usr callback], s))"

text \<open>
  The function \<^verbatim>\<open>createUser\<close> passes to \<^verbatim>\<open>userDb.createUser\<close>, run when the database
  answers with \<^verbatim>\<open>(err, userDataByPrivacy)\<close>. The callback receives the data object after
  \<^verbatim>\<open>_saveCurrentUserLocally\<close> has changed its public part in place.
\<close>

definition createUser_callback ::
  "state \<Rightarrow> string \<Rightarrow> jsval \<Rightarrow> payload \<Rightarrow> effect list \<times> state" where
  "createUser_callback s callback err userDataByPrivacy =
     (if truthy err then ([CallbackCalled callback [err]], s)
      else
        (let s' = saveCurrentUserLocally s userDataByPrivacy;
             d' = userDataByPrivacy\<lparr>pl_publicInfo :=
                    map_option (savePublicUserInfo_object (pl_id userDataByPrivacy))
                      (pl_publicInfo userDataByPrivacy)\<rparr>
         in ([CallbackCalled callback [err, payload_val d']], s')))"

definition sendPasswordResetEmail :: "state \<Rightarrow> string \<Rightarrow> effect list \<times> state" where
  "sendPasswordResetEmail s email = ([DbSendPasswordResetEmail email], s)"

subsection \<open>Searching the loaded users\<close>

text \<open>
  The test of one entry:
  \<^verbatim>\<open>typeof user[field] === "string" && user[field].toUpperCase().includes(query.toUpperCase())\<close>.
\<close>

definition field_matches :: "(string \<Rightarrow> string) \<Rightarrow> jsobj \<Rightarrow> string \<Rightarrow> string \<Rightarrow> bool" where
  "field_matches toUpperCase usr field query =
     (case obj_get usr field of
        JStr v \<Rightarrow> str_includes (toUpperCase v) (toUpperCase query)
      | _ \<Rightarrow> False)"

text \<open>The \<^verbatim>\<open>forEach\<close> over the entries, pushing each match onto \<^verbatim>\<open>results\<close>.\<close>

fun search_loop ::
  "(string \<Rightarrow> string) \<Rightarrow> (string \<times> jsobj) list \<Rightarrow> string \<Rightarrow> string \<Rightarrow> jsobj list \<Rightarrow> jsobj list" where
  "search_loop toUpperCase [] field query results = results"
| "search_loop toUpperCase ((uid, usr) # entries) field query results =
     search_loop toUpperCase entries field query
       (if field_matches toUpperCase usr field query then results @ [usr] else results)"

definition searchFromLocalUsersByField ::
  "(string \<Rightarrow> string) \<Rightarrow> state \<Rightarrow> string \<Rightarrow> string \<Rightarrow> jsobj list \<times> effect list \<times> state" where
  "searchFromLocalUsersByField toUpperCase s field query =
     (search_loop toUpperCase (usersMap s) field query [], [], s)"

subsection \<open>The save capability of a profile\<close>

text \<open>
  \<^verbatim>\<open>_updateUser\<close> runs as \<^verbatim>\<open>user.save()\<close>, its receiver a profile of the cache. The
  database is handed the receiver as it is at the moment of the call, after the three
  \<^verbatim>\<open>delete\<close>s. Every profile of the cache has a string \<^verbatim>\<open>id\<close>; a receiver with another
  \<^verbatim>\<open>id\<close> is outside the store's data (\<open>None\<close>).
\<close>

definition updateUser :: "state \<Rightarrow> jsobj \<Rightarrow> (effect list \<times> state) option" where
  "updateUser s this =
     (case obj_get this ''id'' of
        JStr uid \<Rightarrow>
          (let u1 = obj_delete this ''save'';
               u2 = obj_delete u1 ''id'';
               u3 = obj_delete u2 ''displayName''
           in Some ([DbSaveToUsersCollection uid (JObj [(''publicInfo'', JObj u3)])],
                    savePublicUserInfo s uid (Some u3)))
      | _ \<Rightarrow> None)"

subsection \<open>Session hooks\<close>

text \<open>
  \<^verbatim>\<open>triggers.forEach(event => { event(user); })\<close>: the hooks in registration order; a
  hook that throws ends the loop, and the error leaves it (\<open>Some err\<close>).
\<close>

fun forEach_hooks :: "hook list \<Rightarrow> jsval \<Rightarrow> effect list \<times> jsval option" where
  "forEach_hooks [] v = ([], None)"
| "forEach_hooks (h # hs) v =
     (case hook_run h v of
        Some err \<Rightarrow> ([HookCalled (hook_name h) v], Some err)
      | None \<Rightarrow> (case forEach_hooks hs v of (es, r) \<Rightarrow> (HookCalled (hook_name h) v # es, r)))"

text \<open>The \<^verbatim>\<open>try\<close> around the loop: \<^verbatim>\<open>debugger\<close> on logout, \<^verbatim>\<open>console.log(err)\<close> on login.\<close>

definition handleUserLogout :: "state \<Rightarrow> effect list" where
  "handleUserLogout s =
     (let usr = fullUser s in
      case forEach_hooks (onLogoutTriggers s) usr of
        (es, None) \<Rightarrow> es
      | (es, Some err) \<Rightarrow> es @ [Debugger])"

definition handleUserEstablished :: "state \<Rightarrow> jsval \<Rightarrow> effect list" where
  "handleUserEstablished s usr =
     (case forEach_hooks (onLoginTriggers s) usr of
        (es, None) \<Rightarrow> es
      | (es, Some err) \<Rightarrow> es @ [ConsoleLog err])"

subsection \<open>The current-user feed\<close>

text \<open>
  The function \<^verbatim>\<open>_listenToCurrentUser\<close> passes to \<^verbatim>\<open>userDb.listenToCurrentUser\<close>, run
  on every event of the feed with \<^verbatim>\<open>(err, userData)\<close>: an error, \<^verbatim>\<open>null\<close> data when
  no user is logged in, or the data of the current user.
  \<^verbatim>\<open>shouldExecEstablished\<close> is computed before \<^verbatim>\<open>_saveCurrentUserLocally\<close> runs; the
  hooks then get the public part as that call left it.
\<close>

definition listenToCurrentUser_callback ::
  "state \<Rightarrow> jsval \<Rightarrow> payload option \<Rightarrow> effect list \<times> state" where
  "listenToCurrentUser_callback s err userData =
     (if truthy err then ([Debugger], s)
      else
        (case userData of
           None \<Rightarrow>
             ((if truthy (id_val (userId s)) then handleUserLogout s else []),
              s\<lparr>userId := None\<rparr>)
         | Some d \<Rightarrow>
             (let shouldExecEstablished = (user s = None \<and> pl_publicInfo d \<noteq> None);
                  s' = saveCurrentUserLocally s d
              in ((if shouldExecEstablished
                   then (case pl_publicInfo d of
                           None \<Rightarrow> []
                         | Some p \<Rightarrow>
                             (let p' = savePublicUserInfo_object (pl_id d) p in
                              handleUserEstablished s'
                                (JObj [(''id'', obj_get p' ''id''), (''publicInfo'', JObj p')])))
                   else []),
                  s'))))"

type_synonym feed_event = "jsval \<times> payload option"

text \<open>The feed delivering a sequence of events, one after the other.\<close>

fun feed :: "state \<Rightarrow> feed_event list \<Rightarrow> effect list \<times> state" where
  "feed s [] = ([], s)"
| "feed s ((err, userData) # evs) =
     (case listenToCurrentUser_callback s err userData of
        (es, s') \<Rightarrow> (case feed s' evs of (es', s'') \<Rightarrow> (es @ es', s'')))"

section \<open>Notions of the specification\<close>

subsection \<open>Containing a query ignoring case\<close>

text \<open>
  \<open>v\<close> contains \<open>q\<close> as a case-insensitive substring when, case set aside by the
  language's case mapping, \<open>q\<close> occurs in \<open>v\<close>: the upper-case form of \<open>q\<close> stands
  somewhere in the upper-case form of \<open>v\<close>. The notion is stated for any case
  mapping, so it is the Unicode one for the language's own \<^verbatim>\<open>toUpperCase\<close>.
\<close>

definition contains_ignoring_case :: "(string \<Rightarrow> string) \<Rightarrow> string \<Rightarrow> string \<Rightarrow> bool" where
  "contains_ignoring_case toUpperCase v q =
     (\<exists>before after. toUpperCase v = before @ toUpperCase q @ after)"

definition spec_matches :: "(string \<Rightarrow> string) \<Rightarrow> jsobj \<Rightarrow> string \<Rightarrow> string \<Rightarrow> bool" where
  "spec_matches toUpperCase usr field query =
     (\<exists>v. obj_get usr field = JStr v \<and> contains_ignoring_case toUpperCase v query)"

text \<open>
  The reading character by character: some stretch of \<open>v\<close> is \<open>q\<close> up to a relation
  between characters. It agrees with the notion above when the case mapping works one
  character at a time. On ASCII that relation is \<open>ascii_same_letter\<close>: equal, or a
  lower-case letter and its upper-case form.
\<close>

definition contains_stretch :: "(char \<Rightarrow> char \<Rightarrow> bool) \<Rightarrow> string \<Rightarrow> string \<Rightarrow> bool" where
  "contains_stretch same v q =
     (\<exists>before mid after. v = before @ mid @ after \<and> list_all2 same mid q)"

definition is_lower_letter :: "char \<Rightarrow> bool" where
  "is_lower_letter c = ((97::nat) \<le> of_char c \<and> of_char c \<le> (122::nat))"

definition ascii_same_letter :: "char \<Rightarrow> char \<Rightarrow> bool" where
  "ascii_same_letter x y =
     (x = y \<or> (is_lower_letter x \<and> (of_char y :: nat) + 32 = of_char x)
            \<or> (is_lower_letter y \<and> (of_char x :: nat) + 32 = of_char y))"

subsection \<open>Histories of the current-user feed\<close>

text \<open>
  Both read a history newest event first. \<open>latest_publicInfo_online\<close>: the most recent
  payload with a public part was online, and no absence signal came after it.
  \<open>online_since_absence\<close>: some payload with an online public part came after the last
  absence signal (or after the start, when there was none).
\<close>

fun latest_publicInfo_online :: "feed_event list \<Rightarrow> bool" where
  "latest_publicInfo_online [] = False"
| "latest_publicInfo_online ((err, userData) # older) =
     (if truthy err then latest_publicInfo_online older
      else (case userData of
              None \<Rightarrow> False
            | Some d \<Rightarrow>
                (case pl_publicInfo d of
                   None \<Rightarrow> latest_publicInfo_online older
                 | Some p \<Rightarrow> truthy (obj_get p ''isOnline''))))"

fun online_since_absence :: "feed_event list \<Rightarrow> bool" where
  "online_since_absence [] = False"
| "online_since_absence ((err, userData) # older) =
     (if truthy err then online_since_absence older
      else (case userData of
              None \<Rightarrow> False
            | Some d \<Rightarrow>
                (case pl_publicInfo d of
                   None \<Rightarrow> online_since_absence older
                 | Some p \<Rightarrow> truthy (obj_get p ''isOnline'') \<or> online_since_absence older)))"

text \<open>An event that is not an absence signal: an error, or data.\<close>

fun not_absence :: "feed_event \<Rightarrow> bool" where
  "not_absence (err, userData) = (truthy err \<or> userData \<noteq> None)"

subsection \<open>The hooks a dispatch reaches\<close>

text \<open>
  The hooks in registration order up to and including the first one that throws on
  \<open>v\<close>; all of them when none throws.
\<close>

definition reached_hooks :: "hook list \<Rightarrow> jsval \<Rightarrow> hook list" where
  "reached_hooks hs v = take (Suc (length (takeWhile (\<lambda>h. hook_run h v = None) hs))) hs"

definition call_of :: "jsval \<Rightarrow> hook \<Rightarrow> effect" where
  "call_of v h = HookCalled (hook_name h) v"

subsection \<open>The public fields of a profile\<close>

text \<open>
  The fields the store attaches to a profile it caches, and a profile without them.
\<close>

definition helper_fields :: "string set" where
  "helper_fields = {''save'', ''id'', ''displayName''}"

definition public_fields :: "jsobj \<Rightarrow> jsobj" where
  "public_fields obj = filter (\<lambda>f. fst f \<notin> helper_fields) obj"

subsection \<open>Sample data\<close>

text \<open>
  A case mapping that, beyond ASCII, sends the character 233 (\<^verbatim>\<open>e\<close> with acute accent, in
  Latin-1) to its capital 201, as the language's mapping does. Hooks that return and
  hooks that throw, a user as the feed delivers it, online and offline, and the store
  once that user is established.
\<close>

definition sample_toUpperCase :: "string \<Rightarrow> string" where
  "sample_toUpperCase s =
     map (\<lambda>c. if c = char_of (233::nat) then char_of (201::nat) else ascii_toUpperCase_char c) s"

definition quiet_hook :: "string \<Rightarrow> hook" where
  "quiet_hook n = Hook n (\<lambda>v. None)"

definition throwing_hook :: "string \<Rightarrow> hook" where
  "throwing_hook n = Hook n (\<lambda>v. Some (JStr ''boom''))"

definition online_payload :: payload where
  "online_payload =
     \<lparr>pl_id = ''u1'',
      pl_publicInfo = Some [(''email'', JStr ''bob@x.com''), (''isOnline'', JBool True)],
      pl_privateInfo = JObj [(''phone'', JStr ''555'')], pl_serverInfo = JNull\<rparr>"

definition offline_payload :: payload where
  "offline_payload =
     \<lparr>pl_id = ''u1'',
      pl_publicInfo = Some [(''email'', JStr ''bob@x.com''), (''isOnline'', JBool False)],
      pl_privateInfo = JNull, pl_serverInfo = JNull\<rparr>"

definition online_profile :: jsobj where
  "online_profile =
     [(''email'', JStr ''bob@x.com''), (''isOnline'', JBool True),
      (''displayName'', JStr ''bob@x.com''), (''save'', JFun ''_updateUser''), (''id'', JStr ''u1'')]"

definition logged_in :: state where
  "logged_in = \<lparr> userId = Some ''u1'', usersMap = [(''u1'', online_profile)],
     privateInfo = JObj [(''phone'', JStr ''555'')], serverInfo = JNull,
     onLoginTriggers = [], onLogoutTriggers = [] \<rparr>"

definition logged_in_view :: jsval where
  "logged_in_view = JObj [(''id'', JStr ''u1''), (''public'', JObj online_profile),
     (''private'', JObj [(''phone'', JStr ''555'')]), (''server'', JNull)]"

definition established_arg :: jsval where
  "established_arg = JObj [(''id'', JStr ''u1''), (''publicInfo'', JObj online_profile)]"

section \<open>Objects and the cache\<close>

lemma map_of_map_set: "map_of (map_set m k v) = (map_of m)(k \<mapsto> v)"
  by (simp add: map_set_def update_conv')

lemma obj_get_obj_set: "obj_get (obj_set obj k v) k' = (if k' = k then v else obj_get obj k')"
  by (simp add: obj_get_def obj_set_def update_conv')

lemma obj_get_saved:
  "obj_get (savePublicUserInfo_object uid u) k =
     (if k = ''id'' then JStr uid
      else if k = ''save'' then JFun ''_updateUser''
      else if k = ''displayName'' then obj_get u ''email''
      else obj_get u k)"
  by (simp add: savePublicUserInfo_object_def Let_def obj_get_obj_set)

section \<open>Creating a user\<close>

text \<open>
  C5. When the credentials are missing, or their email or password is absent, empty or
  otherwise not truthy, \<^verbatim>\<open>createUser\<close> calls the callback with exactly
  \<^verbatim>\<open>{message: "You must provide an email and password"}\<close>, calls nothing of the
  database, and leaves the store as it was.
\<close>

theorem createUser_validation:
  assumes "case usr of None \<Rightarrow> True
           | Some u \<Rightarrow> \<not> truthy (obj_get u ''email'') \<or> \<not> truthy (obj_get u ''password'')"
  shows "createUser s usr callback =
           ([CallbackCalled callback
               [JObj [(''message'', JStr ''You must provide an email and password'')]]], s)
         \<and> filter is_backend_call (fst (createUser s usr callback)) = []"
  using assms by (simp add: createUser_def createUser_error_def)

theorem createUser_validation_witness:
  "createUser initial (Some [(''email'', JStr ''''), (''password'', JStr ''x'')]) ''cb'' =
     ([CallbackCalled ''cb''
         [JObj [(''message'', JStr ''You must provide an email and password'')]]], initial)
   \<and> filter is_backend_call
        (fst (createUser initial (Some [(''email'', JStr ''''), (''password'', JStr ''x'')]) ''cb'')) = []"
  using createUser_validation [of "Some [(''email'', JStr ''''), (''password'', JStr ''x'')]" initial "''cb''"]
  by (simp add: obj_get_def)

section \<open>Searching the loaded users\<close>

lemma str_includes_iff: "str_includes s q \<longleftrightarrow> (\<exists>ps ss. s = ps @ q @ ss)"
proof (induction s)
  case Nil
  then show ?case by auto
next
  case (Cons c cs)
  have "str_includes (c # cs) q \<longleftrightarrow> prefix q (c # cs) \<or> sublist q cs"
    using Cons by (simp add: sublist_def)
  also have "\<dots> \<longleftrightarrow> sublist q (c # cs)"
    by (simp add: sublist_Cons_right)
  finally show ?case by (simp add: sublist_def)
qed

lemma field_matches_iff:
  "field_matches toUpperCase usr field query \<longleftrightarrow> spec_matches toUpperCase usr field query"
  by (cases "obj_get usr field")
    (simp_all add: field_matches_def spec_matches_def contains_ignoring_case_def str_includes_iff)

lemma search_loop_filter:
  "search_loop toUpperCase entries field query results =
     results @ filter (\<lambda>u. field_matches toUpperCase u field query) (map snd entries)"
  by (induction entries arbitrary: results) auto

text \<open>
  C7. Whatever the case mapping \<open>toUpperCase\<close> of the language is,
  \<^verbatim>\<open>searchFromLocalUsersByField\<close> calls nothing and changes nothing; it returns
  exactly the cached profiles whose named field is a string that contains the query
  ignoring case, in the order of the cache, and the empty sequence when no profile
  matches.
\<close>

theorem searchFromLocalUsersByField_spec:
  "searchFromLocalUsersByField toUpperCase s field query =
     (filter (\<lambda>u. spec_matches toUpperCase u field query) (map snd (usersMap s)), [], s)
   \<and> ((\<forall>u \<in> snd ` set (usersMap s). \<not> spec_matches toUpperCase u field query) \<longrightarrow>
        fst (searchFromLocalUsersByField toUpperCase s field query) = [])"
  by (simp add: searchFromLocalUsersByField_def search_loop_filter field_matches_iff
      filter_empty_conv)

subsection \<open>Case mappings that work character by character\<close>

lemma map_eq_iff_list_all2: "map f a = map f b \<longleftrightarrow> list_all2 (\<lambda>x y. f x = f y) a b"
proof (induction a arbitrary: b)
  case Nil
  then show ?case by auto
next
  case (Cons x xs)
  then show ?case
    by (cases b) auto
qed

lemma contains_ignoring_case_charwise:
  "contains_ignoring_case (map f) v q \<longleftrightarrow> contains_stretch (\<lambda>x y. f x = f y) v q"
proof
  assume "contains_ignoring_case (map f) v q"
  then obtain ps ss where "map f v = ps @ (map f q @ ss)"
    unfolding contains_ignoring_case_def by auto
  then obtain a bc where v: "v = a @ bc" and "map f q @ ss = map f bc"
    unfolding map_eq_append_conv by blast
  then obtain b c where bc: "bc = b @ c" and "map f q = map f b"
    unfolding append_eq_map_conv by blast
  then have "list_all2 (\<lambda>x y. f x = f y) b q"
    by (simp add: map_eq_iff_list_all2 [symmetric])
  with v bc show "contains_stretch (\<lambda>x y. f x = f y) v q"
    unfolding contains_stretch_def by blast
next
  assume "contains_stretch (\<lambda>x y. f x = f y) v q"
  then obtain a b c where v: "v = a @ b @ c" and "list_all2 (\<lambda>x y. f x = f y) b q"
    unfolding contains_stretch_def by blast
  then have "map f b = map f q"
    by (simp add: map_eq_iff_list_all2)
  with v have "map f v = map f a @ map f q @ map f c"
    by simp
  then show "contains_ignoring_case (map f) v q"
    unfolding contains_ignoring_case_def by blast
qed

lemma of_char_ascii_toUpperCase_char:
  "(of_char (ascii_toUpperCase_char c) :: nat) =
     (if is_lower_letter c then of_char c - 32 else of_char c)"
proof (cases "is_lower_letter c")
  case True
  define n where "n = (of_char c :: nat)"
  from True have "97 \<le> n" "n \<le> 122"
    by (simp_all add: is_lower_letter_def n_def)
  then have "n - 32 < 256"
    by arith
  then have "(of_char (char_of (n - 32) :: char) :: nat) = n - 32"
    by simp
  with True show ?thesis
    by (simp add: ascii_toUpperCase_char_def is_lower_letter_def n_def)
next
  case False
  then show ?thesis
    by (auto simp: ascii_toUpperCase_char_def is_lower_letter_def)
qed

lemma ascii_toUpperCase_char_eq_iff:
  "ascii_toUpperCase_char x = ascii_toUpperCase_char y \<longleftrightarrow> ascii_same_letter x y"
proof -
  define m n where "m = (of_char x :: nat)" and "n = (of_char y :: nat)"
  have xy: "x = y \<longleftrightarrow> m = n"
    by (simp add: m_def n_def)
  have "ascii_toUpperCase_char x = ascii_toUpperCase_char y \<longleftrightarrow>
        (of_char (ascii_toUpperCase_char x) :: nat) = of_char (ascii_toUpperCase_char y)"
    by simp
  also have "\<dots> \<longleftrightarrow>
      (if 97 \<le> m \<and> m \<le> 122 then m - 32 else m) = (if 97 \<le> n \<and> n \<le> 122 then n - 32 else n)"
    by (simp add: of_char_ascii_toUpperCase_char is_lower_letter_def m_def n_def)
  also have "\<dots> \<longleftrightarrow> (m = n \<or> ((97 \<le> m \<and> m \<le> 122) \<and> n + 32 = m)
            \<or> ((97 \<le> n \<and> n \<le> 122) \<and> m + 32 = n))"
    by (auto split: if_splits)
  also have "\<dots> \<longleftrightarrow> ascii_same_letter x y"
    unfolding ascii_same_letter_def is_lower_letter_def xy m_def n_def ..
  finally show ?thesis .
qed

lemma contains_ignoring_case_ascii:
  "contains_ignoring_case ascii_toUpperCase v q \<longleftrightarrow> contains_stretch ascii_same_letter v q"
proof -
  have mapping: "ascii_toUpperCase = map ascii_toUpperCase_char"
    by (rule ext) (simp add: ascii_toUpperCase_def)
  have same: "(\<lambda>x y. ascii_toUpperCase_char x = ascii_toUpperCase_char y) = ascii_same_letter"
    by (intro ext) (simp add: ascii_toUpperCase_char_eq_iff)
  show ?thesis
    unfolding mapping contains_ignoring_case_charwise same ..
qed

lemma ascii_toUpperCase_examples:
  "ascii_toUpperCase ''bob@x.com'' = ''BOB@X.COM''"
  "ascii_toUpperCase ''alice@x.com'' = ''ALICE@X.COM''"
  "ascii_toUpperCase ''BOB'' = ''BOB''"
  by code_simp+

lemma sample_toUpperCase_examples:
  "sample_toUpperCase [char_of (233::nat)] = [char_of (201::nat)]"
  "sample_toUpperCase [char_of (201::nat)] = [char_of (201::nat)]"
  by code_simp+

theorem searchFromLocalUsersByField_spec_witness:
  "filter (\<lambda>u. spec_matches ascii_toUpperCase u ''email'' ''BOB'')
     [[(''id'', JStr ''1''), (''email'', JStr ''bob@x.com'')],
      [(''id'', JStr ''2''), (''email'', JStr ''alice@x.com'')]] =
     [[(''id'', JStr ''1''), (''email'', JStr ''bob@x.com'')]]
   \<and> fst (searchFromLocalUsersByField ascii_toUpperCase
        (initial\<lparr>usersMap := [(''2'', [(''id'', JStr ''2''), (''email'', JStr ''alice@x.com'')])]\<rparr>)
        ''email'' ''BOB'') = []
   \<and> filter (\<lambda>u. spec_matches sample_toUpperCase u ''name'' [char_of (201::nat)])
        [[(''name'', JStr [char_of (233::nat)])]] =
      [[(''name'', JStr [char_of (233::nat)])]]"
proof -
  let ?bob = "[(''id'', JStr ''1''), (''email'', JStr ''bob@x.com'')]"
  let ?alice = "[(''id'', JStr ''2''), (''email'', JStr ''alice@x.com'')]"
  let ?accent = "[(''name'', JStr [char_of (233::nat)])]"
  let ?s = "initial\<lparr>usersMap := [(''1'', ?bob), (''2'', ?alice)]\<rparr>"
  let ?t = "initial\<lparr>usersMap := [(''2'', ?alice)]\<rparr>"
  let ?u = "initial\<lparr>usersMap := [(''3'', ?accent)]\<rparr>"
  have run: "fst (searchFromLocalUsersByField ascii_toUpperCase ?s ''email'' ''BOB'') = [?bob]"
    by (simp add: searchFromLocalUsersByField_def field_matches_def obj_get_def
        ascii_toUpperCase_examples)
  have none: "\<forall>u \<in> snd ` set (usersMap ?t). \<not> spec_matches ascii_toUpperCase u ''email'' ''BOB''"
    by (simp add: field_matches_iff [symmetric] field_matches_def obj_get_def
        ascii_toUpperCase_examples)
  have accent: "fst (searchFromLocalUsersByField sample_toUpperCase ?u ''name'' [char_of (201::nat)]) =
      [?accent]"
    by (simp add: searchFromLocalUsersByField_def field_matches_def obj_get_def
        sample_toUpperCase_examples)
  from searchFromLocalUsersByField_spec [of ascii_toUpperCase ?s "''email''" "''BOB''"] run
  have "filter (\<lambda>u. spec_matches ascii_toUpperCase u ''email'' ''BOB'') [?bob, ?alice] = [?bob]"
    by simp
  moreover from searchFromLocalUsersByField_spec [of ascii_toUpperCase ?t "''email''" "''BOB''"] none
  have "fst (searchFromLocalUsersByField ascii_toUpperCase ?t ''email'' ''BOB'') = []"
    by blast
  moreover from searchFromLocalUsersByField_spec [of sample_toUpperCase ?u "''name''"
      "[char_of (201::nat)]"] accent
  have "filter (\<lambda>u. spec_matches sample_toUpperCase u ''name'' [char_of (201::nat)]) [?accent] =
      [?accent]"
    by simp
  ultimately show ?thesis
    by simp
qed

section \<open>Looking a user up\<close>

text \<open>
  C6. A cached profile is returned with no call of the database. On a miss
  \<^verbatim>\<open>getUserById\<close> returns nothing and subscribes exactly once for that id; once the
  subscription has delivered a profile, the next \<^verbatim>\<open>getUserById\<close> returns the cached
  (normalized) profile and subscribes no more.
\<close>

theorem getUserById_cache:
  "(map_of (usersMap s) uid = Some p \<longrightarrow> getUserById s uid = (Some p, [], s)) \<and>
   (map_of (usersMap s) uid = None \<longrightarrow>
      getUserById s uid = (None, [DbListenToUser uid], s) \<and>
      (let s' = listenToUser_callback s uid err (Some prof) in
       getUserById s' uid = (Some (savePublicUserInfo_object uid prof), [], s')))"
  by (simp add: getUserById_def map_get_def listenToPublicUserData_def
      listenToUser_callback_def savePublicUserInfo_def map_of_map_set Let_def)

theorem getUserById_cache_witness:
  "fst (getUserById initial ''u1'') = None
   \<and> fst (snd (getUserById initial ''u1'')) = [DbListenToUser ''u1'']
   \<and> fst (getUserById (listenToUser_callback initial ''u1'' JNull
             (Some [(''email'', JStr ''bob@x.com'')])) ''u1'') =
       Some [(''email'', JStr ''bob@x.com''), (''displayName'', JStr ''bob@x.com''),
             (''save'', JFun ''_updateUser''), (''id'', JStr ''u1'')]
   \<and> fst (snd (getUserById (listenToUser_callback initial ''u1'' JNull
             (Some [(''email'', JStr ''bob@x.com'')])) ''u1'')) = []"
proof -
  have miss: "map_of (usersMap initial) ''u1'' = None"
    by (simp add: initial_def)
  have obj: "savePublicUserInfo_object ''u1'' [(''email'', JStr ''bob@x.com'')] =
      [(''email'', JStr ''bob@x.com''), (''displayName'', JStr ''bob@x.com''),
       (''save'', JFun ''_updateUser''), (''id'', JStr ''u1'')]"
    by (simp add: savePublicUserInfo_object_def obj_set_def obj_get_def)
  from getUserById_cache [of initial "''u1''" "[]" JNull "[(''email'', JStr ''bob@x.com'')]"]
    miss obj
  show ?thesis
    by (simp add: Let_def)
qed

text \<open>
  C10. When the subscription of a user delivers no profile, the store is left exactly
  as it was: no entry is made or overwritten, and a lookup that missed before still
  returns nothing (and subscribes again).
\<close>

theorem absent_profile_ignored:
  "listenToUser_callback s uid err None = s \<and>
   savePublicUserInfo s uid None = s \<and>
   getUserById (listenToUser_callback s uid err None) uid = getUserById s uid \<and>
   (map_of (usersMap s) uid = None \<longrightarrow>
      getUserById (listenToUser_callback s uid err None) uid = (None, [DbListenToUser uid], s))"
  by (simp add: getUserById_def map_get_def listenToPublicUserData_def
      listenToUser_callback_def savePublicUserInfo_def Let_def)

theorem absent_profile_ignored_witness:
  "listenToUser_callback initial ''u1'' JNull None = initial \<and>
   getUserById (listenToUser_callback initial ''u1'' JNull None) ''u1'' =
     (None, [DbListenToUser ''u1''], initial)"
proof -
  have miss: "map_of (usersMap initial) ''u1'' = None"
    by (simp add: initial_def)
  from absent_profile_ignored [of initial "''u1''" JNull] miss show ?thesis
    by blast
qed

section \<open>Logging out\<close>

text \<open>
  C8, as the code has it. \<^verbatim>\<open>logout\<close> asks the database to log out, passing the public
  profile of the current user (\<^verbatim>\<open>this.user\<close>: the cache entry of \<^verbatim>\<open>userId\<close>,
  \<^verbatim>\<open>undefined\<close> when there is none), then clears \<^verbatim>\<open>userId\<close> at once; the cache,
  \<^verbatim>\<open>privateInfo\<close> and \<^verbatim>\<open>serverInfo\<close> stay as they were.
\<close>

theorem logout_passes_public_profile:
  "fst (logout s) =
     [DbLogout (case userId s of
                  None \<Rightarrow> JUndefined
                | Some u \<Rightarrow> (case map_of (usersMap s) u of None \<Rightarrow> JUndefined | Some p \<Rightarrow> JObj p))]
   \<and> userId (snd (logout s)) = None
   \<and> usersMap (snd (logout s)) = usersMap s
   \<and> privateInfo (snd (logout s)) = privateInfo s
   \<and> serverInfo (snd (logout s)) = serverInfo s"
  by (simp add: logout_def user_def map_get_def opt_val_def split: option.splits)

theorem logout_passes_public_profile_witness:
  "fst (logout (initial\<lparr>userId := Some ''u1'',
          usersMap := [(''u1'', [(''email'', JStr ''bob@x.com'')])],
          privateInfo := JObj [(''phone'', JStr ''555'')]\<rparr>)) =
     [DbLogout (JObj [(''email'', JStr ''bob@x.com'')])]
   \<and> privateInfo (snd (logout (initial\<lparr>userId := Some ''u1'',
          usersMap := [(''u1'', [(''email'', JStr ''bob@x.com'')])],
          privateInfo := JObj [(''phone'', JStr ''555'')]\<rparr>))) = JObj [(''phone'', JStr ''555'')]"
  using logout_passes_public_profile [of "initial\<lparr>userId := Some ''u1'',
          usersMap := [(''u1'', [(''email'', JStr ''bob@x.com'')])],
          privateInfo := JObj [(''phone'', JStr ''555'')]\<rparr>"]
  by simp

text \<open>
  C8 as the specification states it fails: what the database is passed is the public
  profile, not the full view \<^verbatim>\<open>{id, public, private, server}\<close>.
\<close>

theorem logout_full_view_counterexample:
  "fst (logout (initial\<lparr>userId := Some ''u1'',
          usersMap := [(''u1'', [(''email'', JStr ''bob@x.com'')])],
          privateInfo := JObj [(''phone'', JStr ''555'')]\<rparr>)) \<noteq>
     [DbLogout (fullUser (initial\<lparr>userId := Some ''u1'',
          usersMap := [(''u1'', [(''email'', JStr ''bob@x.com'')])],
          privateInfo := JObj [(''phone'', JStr ''555'')]\<rparr>))]"
  by (simp add: logout_def fullUser_def user_def map_get_def opt_val_def)

section \<open>The save capability\<close>

lemma three_deletes:
  "obj_delete (obj_delete (obj_delete usr ''save'') ''id'') ''displayName'' = public_fields usr"
  by (induction usr) (auto simp: obj_delete_def public_fields_def helper_fields_def)

lemma map_of_public_fields:
  "k \<notin> helper_fields \<Longrightarrow> map_of (public_fields obj) k = map_of obj k"
  by (induction obj) (auto simp: public_fields_def)

lemma obj_get_public_fields:
  "k \<notin> helper_fields \<Longrightarrow> obj_get (public_fields obj) k = obj_get obj k"
  by (simp add: obj_get_def map_of_public_fields)

lemma update_fresh: "k \<notin> fst ` set al \<Longrightarrow> AList.update k v al = al @ [(k, v)]"
  by (induction al) auto

lemma saved_object_fresh:
  assumes "fst ` set raw \<inter> helper_fields = {}"
  shows "savePublicUserInfo_object uid raw =
           raw @ [(''displayName'', obj_get raw ''email''), (''save'', JFun ''_updateUser''),
                  (''id'', JStr uid)]"
proof -
  from assms have fresh: "''displayName'' \<notin> fst ` set raw" "''save'' \<notin> fst ` set raw"
      "''id'' \<notin> fst ` set raw"
    by (auto simp: helper_fields_def)
  have 1: "obj_set raw ''displayName'' (obj_get raw ''email'') =
      raw @ [(''displayName'', obj_get raw ''email'')]"
    using fresh(1) by (simp add: obj_set_def update_fresh)
  have 2: "obj_set (raw @ [(''displayName'', obj_get raw ''email'')]) ''save'' (JFun ''_updateUser'') =
      raw @ [(''displayName'', obj_get raw ''email''), (''save'', JFun ''_updateUser'')]"
    using fresh(2) by (simp add: obj_set_def update_fresh)
  have 3: "obj_set (raw @ [(''displayName'', obj_get raw ''email''), (''save'', JFun ''_updateUser'')])
        ''id'' (JStr uid) =
      raw @ [(''displayName'', obj_get raw ''email''), (''save'', JFun ''_updateUser''),
             (''id'', JStr uid)]"
    using fresh(3) by (simp add: obj_set_def update_fresh)
  show ?thesis
    by (simp add: savePublicUserInfo_object_def Let_def 1 2 3)
qed

lemma public_fields_saved:
  assumes "fst ` set raw \<inter> helper_fields = {}"
  shows "public_fields (savePublicUserInfo_object uid raw) = raw"
proof -
  from assms have "filter (\<lambda>f. fst f \<notin> helper_fields) raw = raw"
    by (auto simp: filter_id_conv)
  then show ?thesis
    by (simp add: saved_object_fresh [OF assms] public_fields_def helper_fields_def)
qed

lemma updateUser_general:
  assumes "obj_get usr ''id'' = JStr uid"
  shows "updateUser s usr =
     Some ([DbSaveToUsersCollection uid (JObj [(''publicInfo'', JObj (public_fields usr))])],
           s\<lparr>usersMap := map_set (usersMap s) uid
                (savePublicUserInfo_object uid (public_fields usr))\<rparr>)"
  using assms by (simp add: updateUser_def Let_def three_deletes savePublicUserInfo_def)

text \<open>
  C9. Calling the save capability of a profile with the string id \<open>uid\<close> hands the
  database, under \<open>uid\<close>, exactly the fields of the profile other than \<^verbatim>\<open>save\<close>,
  \<^verbatim>\<open>id\<close> and \<^verbatim>\<open>displayName\<close>, in their order; afterwards the cache holds under
  \<open>uid\<close> the profile with \<^verbatim>\<open>id\<close>, \<^verbatim>\<open>displayName\<close> (the email) and \<^verbatim>\<open>save\<close> attached
  again and every other field as it was. For a profile as the store cached it, from
  data without those three names, the database receives the data as it came and the
  store ends as it was.
\<close>

theorem updateUser_roundtrip:
  "(obj_get usr ''id'' = JStr uid \<longrightarrow>
      (\<exists>s'. updateUser s usr =
          Some ([DbSaveToUsersCollection uid (JObj [(''publicInfo'', JObj (public_fields usr))])], s')
        \<and> set (map fst (public_fields usr)) \<inter> helper_fields = {}
        \<and> (\<exists>cached. map_of (usersMap s') uid = Some cached
              \<and> obj_get cached ''id'' = JStr uid
              \<and> obj_get cached ''save'' = JFun ''_updateUser''
              \<and> obj_get cached ''displayName'' = obj_get usr ''email''
              \<and> (\<forall>k. k \<notin> helper_fields \<longrightarrow> obj_get cached k = obj_get usr k))))
   \<and> (fst ` set raw \<inter> helper_fields = {} \<longrightarrow>
        (let s1 = savePublicUserInfo s uid (Some raw) in
         updateUser s1 (savePublicUserInfo_object uid raw) =
           Some ([DbSaveToUsersCollection uid (JObj [(''publicInfo'', JObj raw)])], s1)))"
proof (intro conjI impI)
  assume id: "obj_get usr ''id'' = JStr uid"
  let ?cached = "savePublicUserInfo_object uid (public_fields usr)"
  let ?s' = "s\<lparr>usersMap := map_set (usersMap s) uid ?cached\<rparr>"
  have email: "obj_get (public_fields usr) ''email'' = obj_get usr ''email''"
    by (rule obj_get_public_fields) (simp add: helper_fields_def)
  have "map_of (usersMap ?s') uid = Some ?cached"
    by (simp add: map_of_map_set)
  moreover have "obj_get ?cached ''id'' = JStr uid" "obj_get ?cached ''save'' = JFun ''_updateUser''"
      "obj_get ?cached ''displayName'' = obj_get usr ''email''"
    by (simp_all add: obj_get_saved email)
  moreover have "\<forall>k. k \<notin> helper_fields \<longrightarrow> obj_get ?cached k = obj_get usr k"
    by (auto simp: obj_get_saved obj_get_public_fields helper_fields_def)
  moreover have "set (map fst (public_fields usr)) \<inter> helper_fields = {}"
    by (auto simp: public_fields_def)
  ultimately show "\<exists>s'. updateUser s usr =
          Some ([DbSaveToUsersCollection uid (JObj [(''publicInfo'', JObj (public_fields usr))])], s')
        \<and> set (map fst (public_fields usr)) \<inter> helper_fields = {}
        \<and> (\<exists>cached. map_of (usersMap s') uid = Some cached
              \<and> obj_get cached ''id'' = JStr uid
              \<and> obj_get cached ''save'' = JFun ''_updateUser''
              \<and> obj_get cached ''displayName'' = obj_get usr ''email''
              \<and> (\<forall>k. k \<notin> helper_fields \<longrightarrow> obj_get cached k = obj_get usr k))"
    using updateUser_general [OF id, of s] by blast
next
  assume fresh: "fst ` set raw \<inter> helper_fields = {}"
  let ?obj = "savePublicUserInfo_object uid raw"
  let ?s1 = "s\<lparr>usersMap := map_set (usersMap s) uid ?obj\<rparr>"
  have id: "obj_get ?obj ''id'' = JStr uid"
    by (simp add: obj_get_saved)
  have "map_of (usersMap ?s1) uid = Some ?obj"
    by (simp add: map_of_map_set)
  then have "map_set (usersMap ?s1) uid ?obj = usersMap ?s1"
    unfolding map_set_def by (rule update_triv)
  then have same: "?s1\<lparr>usersMap := map_set (usersMap ?s1) uid ?obj\<rparr> = ?s1"
    by simp
  have "updateUser ?s1 ?obj =
      Some ([DbSaveToUsersCollection uid (JObj [(''publicInfo'', JObj raw)])], ?s1)"
    using updateUser_general [OF id, of ?s1] same
    by (simp only: public_fields_saved [OF fresh])
  then show "let s1 = savePublicUserInfo s uid (Some raw) in
         updateUser s1 (savePublicUserInfo_object uid raw) =
           Some ([DbSaveToUsersCollection uid (JObj [(''publicInfo'', JObj raw)])], s1)"
    by (simp add: savePublicUserInfo_def)
qed

theorem updateUser_roundtrip_witness:
  "updateUser
     (savePublicUserInfo initial ''u1'' (Some [(''email'', JStr ''bob@x.com''), (''isOnline'', JBool True)]))
     [(''email'', JStr ''bob@x.com''), (''isOnline'', JBool True),
      (''displayName'', JStr ''bob@x.com''), (''save'', JFun ''_updateUser''), (''id'', JStr ''u1'')] =
   Some ([DbSaveToUsersCollection ''u1''
            (JObj [(''publicInfo'', JObj [(''email'', JStr ''bob@x.com''), (''isOnline'', JBool True)])])],
         savePublicUserInfo initial ''u1'' (Some [(''email'', JStr ''bob@x.com''), (''isOnline'', JBool True)]))
   \<and> (\<exists>s'. updateUser initial [(''id'', JStr ''u1''), (''email'', JStr ''new@x.com''), (''save'', JFun ''_updateUser'')] =
          Some ([DbSaveToUsersCollection ''u1'' (JObj [(''publicInfo'', JObj [(''email'', JStr ''new@x.com'')])])], s')
         \<and> (\<exists>cached. map_of (usersMap s') ''u1'' = Some cached \<and> obj_get cached ''displayName'' = JStr ''new@x.com''))"
proof -
  let ?raw = "[(''email'', JStr ''bob@x.com''), (''isOnline'', JBool True)]"
  let ?rcv = "[(''id'', JStr ''u1''), (''email'', JStr ''new@x.com''), (''save'', JFun ''_updateUser'')]"
  have fresh: "fst ` set ?raw \<inter> helper_fields = {}"
    by (simp add: helper_fields_def)
  have obj: "savePublicUserInfo_object ''u1'' ?raw =
      [(''email'', JStr ''bob@x.com''), (''isOnline'', JBool True),
       (''displayName'', JStr ''bob@x.com''), (''save'', JFun ''_updateUser''), (''id'', JStr ''u1'')]"
    by (simp add: savePublicUserInfo_object_def obj_set_def obj_get_def)
  have id: "obj_get ?rcv ''id'' = JStr ''u1''"
    by (simp add: obj_get_def)
  have pf: "public_fields ?rcv = [(''email'', JStr ''new@x.com'')]"
    by (simp add: public_fields_def helper_fields_def)
  have em: "obj_get ?rcv ''email'' = JStr ''new@x.com''"
    by (simp add: obj_get_def)
  note inst = updateUser_roundtrip [of ?rcv "''u1''" initial ?raw]
  from inst fresh obj have 1: "updateUser (savePublicUserInfo initial ''u1'' (Some ?raw))
     [(''email'', JStr ''bob@x.com''), (''isOnline'', JBool True),
      (''displayName'', JStr ''bob@x.com''), (''save'', JFun ''_updateUser''), (''id'', JStr ''u1'')] =
     Some ([DbSaveToUsersCollection ''u1'' (JObj [(''publicInfo'', JObj ?raw)])],
         savePublicUserInfo initial ''u1'' (Some ?raw))"
    by (simp add: Let_def)
  from inst id pf em have 2: "\<exists>s'. updateUser initial ?rcv =
          Some ([DbSaveToUsersCollection ''u1'' (JObj [(''publicInfo'', JObj [(''email'', JStr ''new@x.com'')])])], s')
         \<and> (\<exists>cached. map_of (usersMap s') ''u1'' = Some cached \<and> obj_get cached ''displayName'' = JStr ''new@x.com'')"
    by (metis (no_types, lifting))
  from 1 2 show ?thesis by blast
qed

section \<open>The current-user feed\<close>

lemma isOnline_saved:
  "obj_get (savePublicUserInfo_object uid p) ''isOnline'' = obj_get p ''isOnline''"
  by (simp add: obj_get_saved)

lemma userId_saveCurrentUserLocally:
  "userId (saveCurrentUserLocally s d) =
     (case pl_publicInfo d of
        None \<Rightarrow> userId s
      | Some p \<Rightarrow> if truthy (obj_get p ''isOnline'') then Some (pl_id d) else userId s)"
  by (simp add: saveCurrentUserLocally_def savePublicUserInfo_def isOnline_saved Let_def
      split: option.splits)

lemma usersMap_saveCurrentUserLocally:
  "usersMap (saveCurrentUserLocally s d) =
     (case pl_publicInfo d of
        None \<Rightarrow> usersMap s
      | Some p \<Rightarrow> map_set (usersMap s) (pl_id d) (savePublicUserInfo_object (pl_id d) p))"
  by (simp add: saveCurrentUserLocally_def savePublicUserInfo_def Let_def split: option.splits)

lemma triggers_saveCurrentUserLocally:
  "onLoginTriggers (saveCurrentUserLocally s d) = onLoginTriggers s"
  "onLogoutTriggers (saveCurrentUserLocally s d) = onLogoutTriggers s"
  by (simp_all add: saveCurrentUserLocally_def savePublicUserInfo_def Let_def split: option.splits)

lemma user_saveCurrentUserLocally:
  assumes "user s \<noteq> None"
  shows "user (saveCurrentUserLocally s d) \<noteq> None"
  using assms
  by (auto simp: user_def map_get_def userId_saveCurrentUserLocally
      usersMap_saveCurrentUserLocally map_of_map_set split: option.splits)

lemma user_established:
  assumes "pl_publicInfo d = Some p" "truthy (obj_get p ''isOnline'')"
  shows "user (saveCurrentUserLocally s d) = Some (savePublicUserInfo_object (pl_id d) p)"
  using assms
  by (simp add: user_def map_get_def userId_saveCurrentUserLocally
      usersMap_saveCurrentUserLocally map_of_map_set)

lemma userId_callback:
  "userId (snd (listenToCurrentUser_callback s err userData)) =
     (if truthy err then userId s
      else (case userData of
              None \<Rightarrow> None
            | Some d \<Rightarrow>
                (case pl_publicInfo d of
                   None \<Rightarrow> userId s
                 | Some p \<Rightarrow> if truthy (obj_get p ''isOnline'') then Some (pl_id d) else userId s)))"
  by (simp add: listenToCurrentUser_callback_def Let_def userId_saveCurrentUserLocally
      split: option.splits)

lemma feed_state_Cons:
  "snd (feed s ((err, userData) # evs)) =
     snd (feed (snd (listenToCurrentUser_callback s err userData)) evs)"
  by (simp split: prod.splits)

lemma feed_effects_Cons:
  "fst (feed s ((err, userData) # evs)) =
     fst (listenToCurrentUser_callback s err userData) @
     fst (feed (snd (listenToCurrentUser_callback s err userData)) evs)"
  by (simp split: prod.splits)

lemma feed_append:
  "feed s (evs @ evs') =
     (case feed s evs of (es, s') \<Rightarrow> (case feed s' evs' of (es', s'') \<Rightarrow> (es @ es', s'')))"
  by (induction evs arbitrary: s) (auto split: prod.splits)

lemma feed_snoc_state:
  "snd (feed s (evs @ [(err, userData)])) =
     snd (listenToCurrentUser_callback (snd (feed s evs)) err userData)"
  by (simp add: feed_append split: prod.splits)

lemma online_profile_saved:
  "savePublicUserInfo_object ''u1'' [(''email'', JStr ''bob@x.com''), (''isOnline'', JBool True)] =
     online_profile"
  by (simp add: savePublicUserInfo_object_def obj_set_def obj_get_def online_profile_def)

text \<open>
  C1, as the code has it. Starting with no current user, after any sequence of feed
  events \<^verbatim>\<open>userId\<close> is set exactly when some payload with an online public part has
  been applied since the last absence signal (or since the start, when there was none).
  A later payload whose public part is offline does not clear it.
\<close>

theorem userId_online_since_absence:
  assumes "userId s = None"
  shows "(userId (snd (feed s evs)) \<noteq> None) = online_since_absence (rev evs)"
proof (induction evs rule: rev_induct)
  case Nil
  with assms show ?case by simp
next
  case (snoc e evs)
  obtain err userData where e: "e = (err, userData)"
    by (cases e)
  show ?case
    using snoc.IH
    by (auto simp: e feed_snoc_state userId_callback split: option.splits)
qed

theorem userId_online_since_absence_witness:
  "userId (snd (feed initial [(JNull, Some online_payload), (JNull, Some offline_payload)])) \<noteq> None
   \<and> userId (snd (feed initial [(JNull, Some online_payload), (JNull, None)])) = None"
proof -
  have start: "userId initial = None"
    by (simp add: initial_def)
  have "online_since_absence (rev [(JNull, Some online_payload), (JNull, Some offline_payload)])"
    and "\<not> online_since_absence (rev [(JNull, Some online_payload), (JNull, None)])"
    by (simp_all add: obj_get_def online_payload_def offline_payload_def)
  with userId_online_since_absence [OF start, of "[(JNull, Some online_payload), (JNull, Some offline_payload)]"]
    userId_online_since_absence [OF start, of "[(JNull, Some online_payload), (JNull, None)]"]
  show ?thesis
    by blast
qed

text \<open>
  C1 as the specification states it fails: after an online payload and then an offline
  one for the same user, the most recent public part is offline and no absence signal
  has come, yet \<^verbatim>\<open>userId\<close> is still set.
\<close>

theorem userId_latest_online_counterexample:
  "userId (snd (feed initial [(JNull, Some online_payload), (JNull, Some offline_payload)])) =
     Some ''u1''
   \<and> \<not> latest_publicInfo_online (rev [(JNull, Some online_payload), (JNull, Some offline_payload)])"
  by (simp add: feed_state_Cons userId_callback obj_get_def initial_def online_payload_def
      offline_payload_def del: feed.simps(2))

section \<open>Dispatching the session hooks\<close>

lemma reached_hooks_Nil: "reached_hooks [] v = []"
  by (simp add: reached_hooks_def)

lemma reached_hooks_Cons:
  "reached_hooks (h # hs) v = h # (if hook_run h v = None then reached_hooks hs v else [])"
  by (simp add: reached_hooks_def)

lemma reached_hooks_all:
  "(\<forall>h \<in> set hs. hook_run h v = None) \<Longrightarrow> reached_hooks hs v = hs"
  by (induction hs) (simp_all add: reached_hooks_Nil reached_hooks_Cons)

lemma forEach_hooks_calls:
  "fst (forEach_hooks hs v) = map (call_of v) (reached_hooks hs v)"
  by (induction hs)
    (auto simp: reached_hooks_Nil reached_hooks_Cons call_of_def split: option.splits prod.splits)

lemma forEach_hooks_throw:
  assumes "\<forall>b \<in> set before. hook_run b v = None" and "hook_run h v = Some e"
  shows "forEach_hooks (before @ h # after) v = (map (call_of v) before @ [call_of v h], Some e)"
  using assms by (induction before) (simp_all add: call_of_def)

lemma hook_calls_only: "filter is_hook_call (map (call_of v) hs) = map (call_of v) hs"
  by (induction hs) (simp_all add: call_of_def)

lemma hook_calls_handleUserLogout:
  "filter is_hook_call (handleUserLogout s) =
     map (call_of (fullUser s)) (reached_hooks (onLogoutTriggers s) (fullUser s))"
proof (cases "forEach_hooks (onLogoutTriggers s) (fullUser s)")
  case (Pair es r)
  with forEach_hooks_calls [of "onLogoutTriggers s" "fullUser s"]
  have es: "es = map (call_of (fullUser s)) (reached_hooks (onLogoutTriggers s) (fullUser s))"
    by simp
  show ?thesis
    using Pair by (cases r) (simp_all add: handleUserLogout_def Let_def es hook_calls_only)
qed

lemma hook_calls_handleUserEstablished:
  "filter is_hook_call (handleUserEstablished s v) =
     map (call_of v) (reached_hooks (onLoginTriggers s) v)"
proof (cases "forEach_hooks (onLoginTriggers s) v")
  case (Pair es r)
  with forEach_hooks_calls [of "onLoginTriggers s" v]
  have es: "es = map (call_of v) (reached_hooks (onLoginTriggers s) v)"
    by simp
  show ?thesis
    using Pair by (cases r) (simp_all add: handleUserEstablished_def es hook_calls_only)
qed

lemma fullUser_of_current:
  "userId s = Some uid \<Longrightarrow>
   fullUser s = JObj [(''id'', JStr uid), (''public'', opt_val (map_of (usersMap s) uid)),
                      (''private'', privateInfo s), (''server'', serverInfo s)]"
  by (simp add: fullUser_def user_def map_get_def id_val_def)

text \<open>
  C4, as the code has it. On an absence signal while \<^verbatim>\<open>userId\<close> is a non-empty
  identifier, the \<^verbatim>\<open>onLogout\<close> hooks are called in registration order, each once, up
  to and including the first one that throws (all of them when none throws); each gets
  the full view \<^verbatim>\<open>{id, public, private, server}\<close> of the state before \<^verbatim>\<open>userId\<close> is
  cleared, and \<^verbatim>\<open>userId\<close> is cleared afterwards. An absence signal while no user is set
  calls no hook and changes nothing.
\<close>

theorem absence_runs_onLogout:
  "(userId s = Some uid \<and> uid \<noteq> [] \<and> \<not> truthy err \<longrightarrow>
      filter is_hook_call (fst (listenToCurrentUser_callback s err None)) =
        map (call_of (JObj [(''id'', JStr uid), (''public'', opt_val (map_of (usersMap s) uid)),
                            (''private'', privateInfo s), (''server'', serverInfo s)]))
          (reached_hooks (onLogoutTriggers s)
             (JObj [(''id'', JStr uid), (''public'', opt_val (map_of (usersMap s) uid)),
                    (''private'', privateInfo s), (''server'', serverInfo s)]))
      \<and> snd (listenToCurrentUser_callback s err None) = s\<lparr>userId := None\<rparr>)
   \<and> ((\<forall>h \<in> set hs. hook_run h v = None) \<longrightarrow> reached_hooks hs v = hs)
   \<and> (userId s = None \<and> \<not> truthy err \<longrightarrow> listenToCurrentUser_callback s err None = ([], s))"
proof (intro conjI impI)
  assume a: "userId s = Some uid \<and> uid \<noteq> [] \<and> \<not> truthy err"
  then have "fst (listenToCurrentUser_callback s err None) = handleUserLogout s"
    by (simp add: listenToCurrentUser_callback_def id_val_def)
  then show "filter is_hook_call (fst (listenToCurrentUser_callback s err None)) =
        map (call_of (JObj [(''id'', JStr uid), (''public'', opt_val (map_of (usersMap s) uid)),
                            (''private'', privateInfo s), (''server'', serverInfo s)]))
          (reached_hooks (onLogoutTriggers s)
             (JObj [(''id'', JStr uid), (''public'', opt_val (map_of (usersMap s) uid)),
                    (''private'', privateInfo s), (''server'', serverInfo s)]))"
    using a by (simp add: hook_calls_handleUserLogout fullUser_of_current)
  from a show "snd (listenToCurrentUser_callback s err None) = s\<lparr>userId := None\<rparr>"
    by (simp add: listenToCurrentUser_callback_def)
next
  assume "\<forall>h \<in> set hs. hook_run h v = None"
  then show "reached_hooks hs v = hs"
    by (rule reached_hooks_all)
next
  assume "userId s = None \<and> \<not> truthy err"
  then show "listenToCurrentUser_callback s err None = ([], s)"
    by (simp add: listenToCurrentUser_callback_def id_val_def)
qed

theorem absence_runs_onLogout_witness:
  "filter is_hook_call
     (fst (listenToCurrentUser_callback
        (onLogout (onLogout logged_in (quiet_hook ''a'')) (quiet_hook ''b'')) JNull None)) =
     [HookCalled ''a'' logged_in_view, HookCalled ''b'' logged_in_view]
   \<and> userId (snd (listenToCurrentUser_callback
        (onLogout (onLogout logged_in (quiet_hook ''a'')) (quiet_hook ''b'')) JNull None)) = None
   \<and> listenToCurrentUser_callback (onLogout initial (quiet_hook ''a'')) JNull None =
       ([], onLogout initial (quiet_hook ''a''))"
proof -
  let ?s = "onLogout (onLogout logged_in (quiet_hook ''a'')) (quiet_hook ''b'')"
  let ?t = "onLogout initial (quiet_hook ''a'')"
  have view: "JObj [(''id'', JStr ''u1''), (''public'', opt_val (map_of (usersMap ?s) ''u1'')),
                    (''private'', privateInfo ?s), (''server'', serverInfo ?s)] = logged_in_view"
    by (simp add: onLogout_def logged_in_def logged_in_view_def opt_val_def)
  have pre: "userId ?s = Some ''u1'' \<and> ''u1'' \<noteq> [] \<and> \<not> truthy JNull"
    by (simp add: onLogout_def logged_in_def)
  have quiet: "\<forall>h \<in> set (onLogoutTriggers ?s). hook_run h logged_in_view = None"
    by (simp add: onLogout_def logged_in_def quiet_hook_def)
  have out: "userId ?t = None \<and> \<not> truthy JNull"
    by (simp add: onLogout_def initial_def)
  note on = absence_runs_onLogout [of ?s "''u1''" JNull "onLogoutTriggers ?s" logged_in_view]
  note off = absence_runs_onLogout [of ?t "''u1''" JNull "[]" JNull]
  from on pre quiet have "filter is_hook_call (fst (listenToCurrentUser_callback ?s JNull None)) =
      map (call_of logged_in_view) (onLogoutTriggers ?s)
    \<and> snd (listenToCurrentUser_callback ?s JNull None) = ?s\<lparr>userId := None\<rparr>"
    unfolding view by simp
  moreover from off out have "listenToCurrentUser_callback ?t JNull None = ([], ?t)"
    by blast
  ultimately show ?thesis
    by (simp add: onLogout_def logged_in_def call_of_def quiet_hook_def)
qed

text \<open>
  C4 as the specification states it fails: a first hook that throws keeps the second
  from running, and with the empty string as \<^verbatim>\<open>userId\<close> (not \<^verbatim>\<open>null\<close>, yet not
  truthy) no hook runs at all.
\<close>

theorem absence_all_hooks_counterexample:
  "fst (listenToCurrentUser_callback
        (onLogout (onLogout logged_in (throwing_hook ''first'')) (quiet_hook ''second'')) JNull None) =
     [HookCalled ''first'' logged_in_view, Debugger]
   \<and> userId (logged_in\<lparr>userId := Some [], onLogoutTriggers := [quiet_hook ''a'']\<rparr>) \<noteq> None
   \<and> fst (listenToCurrentUser_callback
        (logged_in\<lparr>userId := Some [], onLogoutTriggers := [quiet_hook ''a'']\<rparr>) JNull None) = []"
  by (simp add: listenToCurrentUser_callback_def onLogout_def logged_in_def id_val_def
      handleUserLogout_def Let_def fullUser_def user_def map_get_def opt_val_def
      throwing_hook_def quiet_hook_def logged_in_view_def)

lemma no_hook_calls_step:
  assumes "user s \<noteq> None" and "truthy err \<or> userData \<noteq> None"
  shows "filter is_hook_call (fst (listenToCurrentUser_callback s err userData)) = []"
    and "user (snd (listenToCurrentUser_callback s err userData)) \<noteq> None"
proof -
  show "filter is_hook_call (fst (listenToCurrentUser_callback s err userData)) = []"
    using assms by (auto simp: listenToCurrentUser_callback_def Let_def)
  show "user (snd (listenToCurrentUser_callback s err userData)) \<noteq> None"
  proof (cases "truthy err")
    case True
    with assms(1) show ?thesis
      by (simp add: listenToCurrentUser_callback_def)
  next
    case False
    with assms(2) obtain d where "userData = Some d"
      by auto
    with False user_saveCurrentUserLocally [OF assms(1), of d] show ?thesis
      by (simp add: listenToCurrentUser_callback_def Let_def)
  qed
qed

lemma no_hook_calls_feed:
  assumes "user s \<noteq> None" and "list_all not_absence evs"
  shows "filter is_hook_call (fst (feed s evs)) = [] \<and> user (snd (feed s evs)) \<noteq> None"
  using assms
proof (induction evs arbitrary: s)
  case Nil
  then show ?case by simp
next
  case (Cons e evs)
  obtain err userData where e: "e = (err, userData)"
    by (cases e)
  from Cons.prems have ok: "truthy err \<or> userData \<noteq> None" and rest: "list_all not_absence evs"
    by (simp_all add: e)
  let ?s' = "snd (listenToCurrentUser_callback s err userData)"
  from no_hook_calls_step [OF Cons.prems(1) ok]
  have none: "filter is_hook_call (fst (listenToCurrentUser_callback s err userData)) = []"
    and usr: "user ?s' \<noteq> None"
    by simp_all
  from Cons.IH [OF usr rest] none show ?case
    by (simp add: e feed_state_Cons feed_effects_Cons del: feed.simps(2))
qed

text \<open>
  C2, as the code has it. A payload with a public part that arrives while no profile of
  a current user is cached calls the \<^verbatim>\<open>onLogin\<close> hooks in registration order, each
  once, with \<^verbatim>\<open>{id, publicInfo}\<close>, up to and including the first one that throws (all
  of them when none throws). The test looks at the state before the payload is saved:
  the hooks run although the same payload, when online, makes that profile the cached
  current user. From then on no error and no payload calls an \<^verbatim>\<open>onLogin\<close> hook, as
  long as no absence signal comes.
\<close>

theorem onLogin_at_first_sighting:
  "(\<not> truthy err \<and> user s = None \<and> pl_publicInfo d = Some p \<longrightarrow>
      filter is_hook_call (fst (listenToCurrentUser_callback s err (Some d))) =
        map (call_of (JObj [(''id'', JStr (pl_id d)),
                            (''publicInfo'', JObj (savePublicUserInfo_object (pl_id d) p))]))
          (reached_hooks (onLoginTriggers s)
             (JObj [(''id'', JStr (pl_id d)),
                    (''publicInfo'', JObj (savePublicUserInfo_object (pl_id d) p))]))
      \<and> (truthy (obj_get p ''isOnline'') \<longrightarrow>
           user (snd (listenToCurrentUser_callback s err (Some d))) =
             Some (savePublicUserInfo_object (pl_id d) p)))
   \<and> ((\<forall>h \<in> set hs. hook_run h v = None) \<longrightarrow> reached_hooks hs v = hs)
   \<and> (user s \<noteq> None \<and> list_all not_absence evs \<longrightarrow>
        filter is_hook_call (fst (feed s evs)) = [] \<and> user (snd (feed s evs)) \<noteq> None)"
proof (intro conjI impI)
  assume a: "\<not> truthy err \<and> user s = None \<and> pl_publicInfo d = Some p"
  let ?arg = "JObj [(''id'', JStr (pl_id d)),
                    (''publicInfo'', JObj (savePublicUserInfo_object (pl_id d) p))]"
  from a have "fst (listenToCurrentUser_callback s err (Some d)) =
      handleUserEstablished (saveCurrentUserLocally s d) ?arg"
    by (simp add: listenToCurrentUser_callback_def Let_def obj_get_saved)
  then show "filter is_hook_call (fst (listenToCurrentUser_callback s err (Some d))) =
      map (call_of ?arg) (reached_hooks (onLoginTriggers s) ?arg)"
    by (simp add: hook_calls_handleUserEstablished triggers_saveCurrentUserLocally)
  assume "truthy (obj_get p ''isOnline'')"
  with a show "user (snd (listenToCurrentUser_callback s err (Some d))) =
      Some (savePublicUserInfo_object (pl_id d) p)"
    by (simp add: listenToCurrentUser_callback_def Let_def user_established)
next
  assume "\<forall>h \<in> set hs. hook_run h v = None"
  then show "reached_hooks hs v = hs"
    by (rule reached_hooks_all)
next
  assume a: "user s \<noteq> None \<and> list_all not_absence evs"
  with no_hook_calls_feed [of s evs]
  show "filter is_hook_call (fst (feed s evs)) = []" and "user (snd (feed s evs)) \<noteq> None"
    by simp_all
qed

theorem onLogin_at_first_sighting_witness:
  "filter is_hook_call
     (fst (listenToCurrentUser_callback
        (onLogin (onLogin initial (quiet_hook ''a'')) (quiet_hook ''b'')) JNull (Some online_payload))) =
     [HookCalled ''a'' established_arg, HookCalled ''b'' established_arg]
   \<and> filter is_hook_call
     (fst (feed (logged_in\<lparr>onLoginTriggers := [quiet_hook ''a'', quiet_hook ''b'']\<rparr>)
        [(JNull, Some online_payload), (JStr ''lost'', None), (JNull, Some offline_payload)])) = []"
proof -
  let ?s = "onLogin (onLogin initial (quiet_hook ''a'')) (quiet_hook ''b'')"
  let ?t = "logged_in\<lparr>onLoginTriggers := [quiet_hook ''a'', quiet_hook ''b'']\<rparr>"
  let ?evs = "[(JNull, Some online_payload), (JStr ''lost'', None), (JNull, Some offline_payload)]"
  have pre: "\<not> truthy JNull \<and> user ?s = None \<and>
      pl_publicInfo online_payload = Some [(''email'', JStr ''bob@x.com''), (''isOnline'', JBool True)]"
    by (simp add: user_def map_get_def onLogin_def initial_def online_payload_def)
  have quiet: "\<forall>h \<in> set (onLoginTriggers ?s). hook_run h established_arg = None"
    by (simp add: onLogin_def initial_def quiet_hook_def)
  have later: "user ?t \<noteq> None \<and> list_all not_absence ?evs"
    by (simp add: user_def map_get_def logged_in_def)
  note first = onLogin_at_first_sighting [where err = JNull and s = ?s and d = online_payload
      and p = "[(''email'', JStr ''bob@x.com''), (''isOnline'', JBool True)]"
      and hs = "onLoginTriggers ?s" and v = established_arg]
  note rest = onLogin_at_first_sighting [where s = ?t and evs = ?evs]
  from first pre quiet have "filter is_hook_call
     (fst (listenToCurrentUser_callback ?s JNull (Some online_payload))) =
     map (call_of established_arg) (onLoginTriggers ?s)"
    by (simp add: online_profile_saved established_arg_def online_payload_def)
  moreover from rest later have "filter is_hook_call (fst (feed ?t ?evs)) = []"
    by blast
  ultimately show ?thesis
    by (simp add: onLogin_def initial_def call_of_def quiet_hook_def)
qed

lemma offline_payload_step:
  "listenToCurrentUser_callback (onLogin initial (quiet_hook ''a'')) JNull (Some offline_payload) =
     ([HookCalled ''a'' (JObj [(''id'', JStr ''u1''), (''publicInfo'',
          JObj [(''email'', JStr ''bob@x.com''), (''isOnline'', JBool False),
                (''displayName'', JStr ''bob@x.com''), (''save'', JFun ''_updateUser''),
                (''id'', JStr ''u1'')])])],
      (onLogin initial (quiet_hook ''a''))\<lparr>usersMap := [(''u1'',
          [(''email'', JStr ''bob@x.com''), (''isOnline'', JBool False),
           (''displayName'', JStr ''bob@x.com''), (''save'', JFun ''_updateUser''),
           (''id'', JStr ''u1'')])]\<rparr>)"
  by (simp add: listenToCurrentUser_callback_def Let_def onLogin_def initial_def user_def map_get_def
      offline_payload_def handleUserEstablished_def saveCurrentUserLocally_def savePublicUserInfo_def
      savePublicUserInfo_object_def obj_set_def map_set_def
      quiet_hook_def obj_get_def)

text \<open>
  C2 as the specification states it fails: at the first online profile a first hook that
  throws keeps the second from firing; and a hook fires on an offline payload too, so
  that by the first online profile it has fired twice.
\<close>

theorem onLogin_all_hooks_counterexample:
  "user (onLogin (onLogin initial (throwing_hook ''first'')) (quiet_hook ''second'')) = None
   \<and> fst (listenToCurrentUser_callback
        (onLogin (onLogin initial (throwing_hook ''first'')) (quiet_hook ''second''))
        JNull (Some online_payload)) =
     [HookCalled ''first'' established_arg, ConsoleLog (JStr ''boom'')]
   \<and> filter is_hook_call (fst (feed (onLogin initial (quiet_hook ''a''))
        [(JNull, Some offline_payload), (JNull, Some online_payload)])) =
     [HookCalled ''a'' (JObj [(''id'', JStr ''u1''), (''publicInfo'',
          JObj [(''email'', JStr ''bob@x.com''), (''isOnline'', JBool False),
                (''displayName'', JStr ''bob@x.com''), (''save'', JFun ''_updateUser''),
                (''id'', JStr ''u1'')])]),
      HookCalled ''a'' established_arg]"
proof -
  have "filter is_hook_call (fst (feed (onLogin initial (quiet_hook ''a''))
        [(JNull, Some offline_payload), (JNull, Some online_payload)])) =
     [HookCalled ''a'' (JObj [(''id'', JStr ''u1''), (''publicInfo'',
          JObj [(''email'', JStr ''bob@x.com''), (''isOnline'', JBool False),
                (''displayName'', JStr ''bob@x.com''), (''save'', JFun ''_updateUser''),
                (''id'', JStr ''u1'')])]),
      HookCalled ''a'' established_arg]"
    by (simp add: feed_effects_Cons offline_payload_step del: feed.simps(2))
      (simp add: listenToCurrentUser_callback_def Let_def onLogin_def initial_def user_def
        map_get_def online_payload_def online_profile_saved handleUserEstablished_def
        triggers_saveCurrentUserLocally quiet_hook_def established_arg_def obj_get_def
        online_profile_def)
  moreover have "user (onLogin (onLogin initial (throwing_hook ''first'')) (quiet_hook ''second'')) = None
   \<and> fst (listenToCurrentUser_callback
        (onLogin (onLogin initial (throwing_hook ''first'')) (quiet_hook ''second''))
        JNull (Some online_payload)) =
     [HookCalled ''first'' established_arg, ConsoleLog (JStr ''boom'')]"
    by (simp add: listenToCurrentUser_callback_def Let_def onLogin_def initial_def user_def map_get_def
      online_payload_def online_profile_saved handleUserEstablished_def triggers_saveCurrentUserLocally
      throwing_hook_def quiet_hook_def established_arg_def obj_get_def online_profile_def)
  ultimately show ?thesis by blast
qed

text \<open>
  C3, as the code has it. When a hook throws, the \<^verbatim>\<open>try\<close> around the whole loop
  catches the error: the hooks registered before it have run, the hooks registered
  after it are not called, and the dispatch ends normally, with \<^verbatim>\<open>console.log(err)\<close>
  for \<^verbatim>\<open>onLogin\<close> and \<^verbatim>\<open>debugger\<close> for \<^verbatim>\<open>onLogout\<close>; the feed handler goes on
  and clears \<^verbatim>\<open>userId\<close>.
\<close>

theorem throwing_hook_ends_dispatch:
  "(onLoginTriggers s = before @ h # after \<and> (\<forall>b \<in> set before. hook_run b v = None)
      \<and> hook_run h v = Some e \<longrightarrow>
      handleUserEstablished s v = map (call_of v) before @ [call_of v h, ConsoleLog e])
   \<and> (onLogoutTriggers s = before @ h # after
      \<and> (\<forall>b \<in> set before. hook_run b (fullUser s) = None)
      \<and> hook_run h (fullUser s) = Some e \<longrightarrow>
      handleUserLogout s = map (call_of (fullUser s)) before @ [call_of (fullUser s) h, Debugger]
      \<and> (userId s = Some uid \<and> uid \<noteq> [] \<longrightarrow>
           listenToCurrentUser_callback s JNull None =
             (map (call_of (fullUser s)) before @ [call_of (fullUser s) h, Debugger],
              s\<lparr>userId := None\<rparr>)))"
proof (intro conjI impI)
  assume a: "onLoginTriggers s = before @ h # after \<and> (\<forall>b \<in> set before. hook_run b v = None)
      \<and> hook_run h v = Some e"
  then have "forEach_hooks (onLoginTriggers s) v = (map (call_of v) before @ [call_of v h], Some e)"
    by (simp add: forEach_hooks_throw)
  then show "handleUserEstablished s v = map (call_of v) before @ [call_of v h, ConsoleLog e]"
    by (simp add: handleUserEstablished_def)
next
  assume a: "onLogoutTriggers s = before @ h # after
      \<and> (\<forall>b \<in> set before. hook_run b (fullUser s) = None)
      \<and> hook_run h (fullUser s) = Some e"
  then have "forEach_hooks (onLogoutTriggers s) (fullUser s) =
      (map (call_of (fullUser s)) before @ [call_of (fullUser s) h], Some e)"
    by (simp add: forEach_hooks_throw)
  then show out: "handleUserLogout s =
      map (call_of (fullUser s)) before @ [call_of (fullUser s) h, Debugger]"
    by (simp add: handleUserLogout_def Let_def)
  assume "userId s = Some uid \<and> uid \<noteq> []"
  then show "listenToCurrentUser_callback s JNull None =
             (map (call_of (fullUser s)) before @ [call_of (fullUser s) h, Debugger],
              s\<lparr>userId := None\<rparr>)"
    by (simp add: listenToCurrentUser_callback_def id_val_def out)
qed

theorem throwing_hook_ends_dispatch_witness:
  "handleUserEstablished
     (onLogin (onLogin (onLogin initial (quiet_hook ''a'')) (throwing_hook ''b'')) (quiet_hook ''c''))
     established_arg =
     [HookCalled ''a'' established_arg, HookCalled ''b'' established_arg, ConsoleLog (JStr ''boom'')]
   \<and> listenToCurrentUser_callback
       (onLogout (onLogout (onLogout logged_in (quiet_hook ''a'')) (throwing_hook ''b'')) (quiet_hook ''c''))
       JNull None =
     ([HookCalled ''a'' logged_in_view, HookCalled ''b'' logged_in_view, Debugger],
      (onLogout (onLogout (onLogout logged_in (quiet_hook ''a'')) (throwing_hook ''b'')) (quiet_hook ''c''))
        \<lparr>userId := None\<rparr>)"
proof -
  let ?s = "onLogin (onLogin (onLogin initial (quiet_hook ''a'')) (throwing_hook ''b'')) (quiet_hook ''c'')"
  let ?t = "onLogout (onLogout (onLogout logged_in (quiet_hook ''a'')) (throwing_hook ''b'')) (quiet_hook ''c'')"
  have view: "fullUser ?t = logged_in_view"
    by (simp add: fullUser_def user_def map_get_def onLogout_def logged_in_def logged_in_view_def
        opt_val_def id_val_def)
  have login: "onLoginTriggers ?s = [quiet_hook ''a''] @ throwing_hook ''b'' # [quiet_hook ''c'']
      \<and> (\<forall>b \<in> set [quiet_hook ''a'']. hook_run b established_arg = None)
      \<and> hook_run (throwing_hook ''b'') established_arg = Some (JStr ''boom'')"
    by (simp add: onLogin_def initial_def quiet_hook_def throwing_hook_def)
  have logout: "onLogoutTriggers ?t = [quiet_hook ''a''] @ throwing_hook ''b'' # [quiet_hook ''c'']
      \<and> (\<forall>b \<in> set [quiet_hook ''a'']. hook_run b (fullUser ?t) = None)
      \<and> hook_run (throwing_hook ''b'') (fullUser ?t) = Some (JStr ''boom'')"
    by (simp add: onLogout_def logged_in_def quiet_hook_def throwing_hook_def)
  have cur: "userId ?t = Some ''u1'' \<and> ''u1'' \<noteq> []"
    by (simp add: onLogout_def logged_in_def)
  note a = throwing_hook_ends_dispatch [of ?s "[quiet_hook ''a'']" "throwing_hook ''b''"
      "[quiet_hook ''c'']" established_arg "JStr ''boom''" "''u1''"]
  note b = throwing_hook_ends_dispatch [of ?t "[quiet_hook ''a'']" "throwing_hook ''b''"
      "[quiet_hook ''c'']" established_arg "JStr ''boom''" "''u1''"]
  from a login have "handleUserEstablished ?s established_arg =
      map (call_of established_arg) [quiet_hook ''a''] @
      [call_of established_arg (throwing_hook ''b''), ConsoleLog (JStr ''boom'')]"
    by blast
  moreover from b logout cur have "listenToCurrentUser_callback ?t JNull None =
      (map (call_of (fullUser ?t)) [quiet_hook ''a''] @
       [call_of (fullUser ?t) (throwing_hook ''b''), Debugger], ?t\<lparr>userId := None\<rparr>)"
    by blast
  ultimately show ?thesis
    unfolding view by (simp add: call_of_def quiet_hook_def throwing_hook_def)
qed

text \<open>
  C3 as the specification states it fails: the hook registered after a throwing one is
  not called, on either path.
\<close>

theorem later_hooks_skipped_counterexample:
  "handleUserEstablished
     (onLogin (onLogin initial (throwing_hook ''first'')) (quiet_hook ''second'')) established_arg =
     [HookCalled ''first'' established_arg, ConsoleLog (JStr ''boom'')]
   \<and> HookCalled ''second'' established_arg \<notin> set (handleUserEstablished
     (onLogin (onLogin initial (throwing_hook ''first'')) (quiet_hook ''second'')) established_arg)
   \<and> handleUserLogout
     (onLogout (onLogout logged_in (throwing_hook ''first'')) (quiet_hook ''second'')) =
     [HookCalled ''first'' logged_in_view, Debugger]
   \<and> HookCalled ''second'' logged_in_view \<notin> set (handleUserLogout
     (onLogout (onLogout logged_in (throwing_hook ''first'')) (quiet_hook ''second'')))"
  by (simp add: handleUserEstablished_def handleUserLogout_def Let_def onLogin_def onLogout_def
      initial_def logged_in_def throwing_hook_def quiet_hook_def fullUser_def user_def map_get_def
      opt_val_def id_val_def logged_in_view_def)

end
